theory Spec2Isabelle
  imports Main
begin

section \<open>Python values and the built-ins the ledger calls\<close>

text \<open>
  The ledger of \<^verbatim>\<open>streamlit_app.py\<close> handles dynamically typed values read from the rows
  of a data frame. They are modelled by a datatype of the scalar values a cell can hold.
  The type parameter \<open>'f\<close> stands for Python's \<^verbatim>\<open>float\<close>: the program never computes with
  floats in the ledger engine, it only converts to and from them and prints them, and
  these conversions are built-ins of the language, not code of the repository.
\<close>

datatype py_error = KeyError | TypeError | ValueError | OverflowError | IndexError

datatype 'f pyval = PNone | PBool bool | PInt int | PFloat 'f | PStr string

text \<open>
  The built-ins used by the program and not defined by it: \<^verbatim>\<open>hashlib.sha256(s.encode()).hexdigest()\<close>
  on the UTF-8 bytes of a string, and the conversions between floats, integers and text.
  Strings are byte strings (UTF-8), so encoding is the identity on them.
\<close>

record 'f builtins =
  sha256_hexdigest :: "string \<Rightarrow> string"
  float_of_int :: "int \<Rightarrow> py_error + 'f"
  float_of_str :: "string \<Rightarrow> py_error + 'f"
  int_of_float :: "'f \<Rightarrow> py_error + int"
  int_of_str :: "string \<Rightarrow> py_error + int"
  float_nonzero :: "'f \<Rightarrow> bool"
  float_repr :: "'f \<Rightarrow> string"

definition digit_char :: "nat \<Rightarrow> char" where
  "digit_char d = ''0123456789'' ! d"

fun digits :: "nat \<Rightarrow> string" where
  "digits n = (if n < 10 then [digit_char n] else digits (n div 10) @ [digit_char (n mod 10)])"

declare digits.simps [simp del]

definition str_int :: "int \<Rightarrow> string" where
  "str_int i = (if i < 0 then CHR ''-'' # digits (nat (- i)) else digits (nat i))"

text \<open>\<^verbatim>\<open>str(v)\<close>, which is also what an f-string field \<^verbatim>\<open>{v}\<close> prints for these values.\<close>

fun py_str :: "'f builtins \<Rightarrow> 'f pyval \<Rightarrow> string" where
  "py_str env PNone = ''None''"
| "py_str env (PBool b) = (if b then ''True'' else ''False'')"
| "py_str env (PInt i) = str_int i"
| "py_str env (PFloat x) = float_repr env x"
| "py_str env (PStr s) = s"

text \<open>\<^verbatim>\<open>bool(v)\<close>: Python truthiness.\<close>

fun py_bool :: "'f builtins \<Rightarrow> 'f pyval \<Rightarrow> bool" where
  "py_bool env PNone = False"
| "py_bool env (PBool b) = b"
| "py_bool env (PInt i) = (i \<noteq> 0)"
| "py_bool env (PFloat x) = float_nonzero env x"
| "py_bool env (PStr s) = (s \<noteq> [])"

text \<open>\<^verbatim>\<open>float(v)\<close> and \<^verbatim>\<open>int(v)\<close>: each raises on what it cannot convert.\<close>

fun py_float :: "'f builtins \<Rightarrow> 'f pyval \<Rightarrow> py_error + 'f" where
  "py_float env PNone = Inl TypeError"
| "py_float env (PBool b) = float_of_int env (if b then 1 else 0)"
| "py_float env (PInt i) = float_of_int env i"
| "py_float env (PFloat x) = Inr x"
| "py_float env (PStr s) = float_of_str env s"

fun py_int :: "'f builtins \<Rightarrow> 'f pyval \<Rightarrow> py_error + int" where
  "py_int env PNone = Inl TypeError"
| "py_int env (PBool b) = Inr (if b then 1 else 0)"
| "py_int env (PInt i) = Inr i"
| "py_int env (PFloat x) = int_of_float env x"
| "py_int env (PStr s) = int_of_str env s"

section \<open>Transaction\<close>

record 'f transaction =
  sender :: "'f pyval"
  receiver :: "'f pyval"
  amount :: "'f pyval"
  currency :: "'f pyval"
  is_laundering :: bool
  payment_type :: "'f pyval"

text \<open>\<^verbatim>\<open>Transaction.__init__\<close>: stores its arguments, the flag through \<^verbatim>\<open>bool\<close>.\<close>

definition Transaction ::
  "'f builtins \<Rightarrow> 'f pyval \<Rightarrow> 'f pyval \<Rightarrow> 'f pyval \<Rightarrow> 'f pyval \<Rightarrow> 'f pyval \<Rightarrow> 'f pyval
     \<Rightarrow> 'f transaction" where
  "Transaction env sender_arg receiver_arg amount_arg currency_arg is_laundering_arg payment_type_arg =
     \<lparr>sender = sender_arg, receiver = receiver_arg, amount = amount_arg,
      currency = currency_arg, is_laundering = py_bool env is_laundering_arg,
      payment_type = payment_type_arg\<rparr>"

text \<open>
  The three non-ASCII marks of \<^verbatim>\<open>Transaction.__str__\<close>, as their UTF-8 bytes: the arrow
  U+2192, the police light U+1F6A8 and the check mark U+2705.
\<close>

definition arrow_mark :: string where
  "arrow_mark = [CHR 0xE2, CHR 0x86, CHR 0x92]"

definition suspicious_mark :: string where
  "suspicious_mark = [CHR 0xF0, CHR 0x9F, CHR 0x9A, CHR 0xA8]"

definition normal_mark :: string where
  "normal_mark = [CHR 0xE2, CHR 0x9C, CHR 0x85]"

definition status_str :: "bool \<Rightarrow> string" where
  "status_str flag = (if flag then suspicious_mark @ '' Suspicious'' else normal_mark @ '' Normal'')"

text \<open>\<^verbatim>\<open>Transaction.__str__\<close>.\<close>

definition txn_str :: "'f builtins \<Rightarrow> 'f transaction \<Rightarrow> string" where
  "txn_str env t =
     py_str env (sender t) @ '' '' @ arrow_mark @ '' '' @ py_str env (receiver t) @ '' | '' @
     py_str env (amount t) @ '' '' @ py_str env (currency t) @ '' | '' @
     py_str env (payment_type t) @ '' | '' @ status_str (is_laundering t)"

section \<open>Block\<close>

record 'f block =
  index :: nat
  timestamp :: 'f
  transactions :: "'f transaction list"
  previous_hash :: string
  hash :: string

text \<open>The string \<^verbatim>\<open>Block.calculate_hash\<close> builds before hashing it.\<close>

definition block_string :: "'f builtins \<Rightarrow> 'f block \<Rightarrow> string" where
  "block_string env b =
     str_int (int (index b)) @ float_repr env (timestamp b) @
     concat (map (txn_str env) (transactions b)) @ previous_hash b"

definition calculate_hash :: "'f builtins \<Rightarrow> 'f block \<Rightarrow> string" where
  "calculate_hash env b = sha256_hexdigest env (block_string env b)"

text \<open>
  \<^verbatim>\<open>Block.__init__\<close>. The constructor reads the clock (\<^verbatim>\<open>time.time()\<close>); the reading is
  the argument \<open>now\<close>. The digest is computed last, over the fields already stored.
\<close>

definition Block :: "'f builtins \<Rightarrow> 'f \<Rightarrow> nat \<Rightarrow> 'f transaction list \<Rightarrow> string \<Rightarrow> 'f block" where
  "Block env now index_arg transactions_arg previous_hash_arg =
     (let b = \<lparr>index = index_arg, timestamp = now, transactions = transactions_arg,
               previous_hash = previous_hash_arg, hash = []\<rparr>
      in b\<lparr>hash := calculate_hash env b\<rparr>)"

section \<open>BlockchainLedger\<close>

record 'f ledger =
  chain :: "'f block list"
  all_transactions :: "'f transaction list"

definition create_genesis_block :: "'f builtins \<Rightarrow> 'f \<Rightarrow> 'f block" where
  "create_genesis_block env now = Block env now 0 [] ''0''"

definition BlockchainLedger :: "'f builtins \<Rightarrow> 'f \<Rightarrow> 'f ledger" where
  "BlockchainLedger env now = \<lparr>chain = [create_genesis_block env now], all_transactions = []\<rparr>"

text \<open>\<^verbatim>\<open>self.chain[-1]\<close> raises \<^verbatim>\<open>IndexError\<close> on an empty chain.\<close>

definition get_latest_block :: "'f ledger \<Rightarrow> py_error + 'f block" where
  "get_latest_block l = (if chain l = [] then Inl IndexError else Inr (last (chain l)))"

text \<open>
  \<^verbatim>\<open>add_block\<close>: the new block's index is the chain's length, its previous hash the stored
  hash of the last block. The failure of \<^verbatim>\<open>get_latest_block\<close> comes before any mutation.
\<close>

definition add_block ::
  "'f builtins \<Rightarrow> 'f \<Rightarrow> 'f ledger \<Rightarrow> 'f transaction list \<Rightarrow> py_error + 'f ledger" where
  "add_block env now l txns =
     (case get_latest_block l of
        Inl e \<Rightarrow> Inl e
      | Inr latest \<Rightarrow>
          Inr (l\<lparr>chain := chain l @ [Block env now (length (chain l)) txns (hash latest)],
                 all_transactions := all_transactions l @ txns\<rparr>))"

text \<open>
  \<^verbatim>\<open>is_chain_valid\<close>: the loop \<^verbatim>\<open>for i in range(1, len(self.chain))\<close>, with its early
  return. \<open>i\<close> starts at 1, so \<open>i - 1\<close> is the index before it.
\<close>

function is_chain_valid_loop :: "'f builtins \<Rightarrow> 'f block list \<Rightarrow> nat \<Rightarrow> bool" where
  "is_chain_valid_loop env ch i =
     (if i < length ch then
        (let curr = ch ! i; prev = ch ! (i - 1) in
         if hash curr \<noteq> calculate_hash env curr \<or> previous_hash curr \<noteq> hash prev then False
         else is_chain_valid_loop env ch (Suc i))
      else True)"
  by pat_completeness auto
termination
  by (relation "measure (\<lambda>(env, ch, i). length ch - i)") auto

declare is_chain_valid_loop.simps [simp del]

definition is_chain_valid :: "'f builtins \<Rightarrow> 'f ledger \<Rightarrow> bool" where
  "is_chain_valid env l = is_chain_valid_loop env (chain l) 1"

text \<open>\<^verbatim>\<open>filter_by_laundering\<close>, for a boolean \<^verbatim>\<open>status\<close>.\<close>

definition filter_by_laundering :: "'f ledger \<Rightarrow> bool \<Rightarrow> 'f transaction list" where
  "filter_by_laundering l status = filter (\<lambda>txn. is_laundering txn = status) (all_transactions l)"

text \<open>
  \<^verbatim>\<open>summary\<close>: the dictionary it returns, as a record. \<^verbatim>\<open>sum\<close> over the flags counts
  \<^verbatim>\<open>True\<close> as 1 and \<^verbatim>\<open>False\<close> as 0.
\<close>

record summary_dict =
  Total_Transactions :: int
  Suspicious :: int
  Normal :: int
  Total_Blocks :: int

definition summary :: "'f ledger \<Rightarrow> summary_dict" where
  "summary l =
     (let laundering = sum_list (map (\<lambda>txn. if is_laundering txn then 1 else 0) (all_transactions l));
          total = int (length (all_transactions l))
      in \<lparr>Total_Transactions = total, Suspicious = laundering, Normal = total - laundering,
          Total_Blocks = int (length (chain l))\<rparr>)"

section \<open>The ingestion pipeline\<close>

text \<open>
  A row of the data frame maps column names to cell values; \<^verbatim>\<open>row['X']\<close> raises
  \<^verbatim>\<open>KeyError\<close> when the column is missing.
\<close>

type_synonym 'f row = "string \<Rightarrow> 'f pyval option"

definition row_get :: "'f row \<Rightarrow> string \<Rightarrow> py_error + 'f pyval" where
  "row_get r k = (case r k of None \<Rightarrow> Inl KeyError | Some v \<Rightarrow> Inr v)"

text \<open>
  Sequencing of steps that may raise: the first exception ends the computation.
\<close>

definition raising :: "py_error + 'a \<Rightarrow> ('a \<Rightarrow> py_error + 'b) \<Rightarrow> py_error + 'b" where
  "raising m f = (case m of Inl e \<Rightarrow> Inl e | Inr v \<Rightarrow> f v)"

text \<open>
  The construction of one transaction inside the \<^verbatim>\<open>try\<close> of \<^verbatim>\<open>process_transactions\<close>:
  the keyword arguments are evaluated in the order they are written, and the first
  failure is the exception raised.
\<close>

definition parse_row :: "'f builtins \<Rightarrow> 'f row \<Rightarrow> py_error + 'f transaction" where
  "parse_row env r =
     raising (row_get r ''Sender_account'') (\<lambda>s.
     raising (row_get r ''Receiver_account'') (\<lambda>rc.
     raising (row_get r ''Amount'') (\<lambda>a.
     raising (py_float env a) (\<lambda>x.
     raising (row_get r ''Payment_currency'') (\<lambda>c.
     raising (row_get r ''Is_laundering'') (\<lambda>fl.
     raising (py_int env fl) (\<lambda>n.
     raising (row_get r ''Payment_type'') (\<lambda>p.
       Inr (Transaction env s rc (PFloat x) c (PInt n) p)))))))))"

text \<open>
  One iteration of the loop over the rows. The state is the ledger and the pending batch.
  \<open>clock n\<close> is the reading of \<^verbatim>\<open>time.time()\<close> taken by the constructor of the block with
  index \<open>n\<close>. Any exception inside the \<^verbatim>\<open>try\<close> leads to \<^verbatim>\<open>continue\<close>: when the transaction
  cannot be built nothing changes; were \<^verbatim>\<open>add_block\<close> to raise, the transaction would stay
  appended to the pending batch.
\<close>

definition process_row ::
  "'f builtins \<Rightarrow> (nat \<Rightarrow> 'f) \<Rightarrow> int \<Rightarrow> 'f ledger \<times> 'f transaction list \<Rightarrow> 'f row
     \<Rightarrow> 'f ledger \<times> 'f transaction list" where
  "process_row env clock block_size st r =
     (case st of (l, txn_batch) \<Rightarrow>
        (case parse_row env r of
           Inl e \<Rightarrow> (l, txn_batch)
         | Inr txn \<Rightarrow>
             (let txn_batch' = txn_batch @ [txn] in
              if int (length txn_batch') \<ge> block_size then
                (case add_block env (clock (length (chain l))) l txn_batch' of
                   Inl e \<Rightarrow> (l, txn_batch')
                 | Inr l' \<Rightarrow> (l', []))
              else (l, txn_batch'))))"

definition process_transactions ::
  "'f builtins \<Rightarrow> (nat \<Rightarrow> 'f) \<Rightarrow> 'f row list \<Rightarrow> int \<Rightarrow> py_error + 'f ledger" where
  "process_transactions env clock rows block_size =
     (case foldl (process_row env clock block_size) (BlockchainLedger env (clock 0), []) rows of
        (l, txn_batch) \<Rightarrow>
          if txn_batch \<noteq> [] then add_block env (clock (length (chain l))) l txn_batch
          else Inr l)"

section \<open>Notions used to state the properties\<close>

text \<open>The transactions of the rows that can be built, in the order of the rows.\<close>

definition valid_transactions :: "'f builtins \<Rightarrow> 'f row list \<Rightarrow> 'f transaction list" where
  "valid_transactions env rows =
     concat (map (\<lambda>r. case parse_row env r of Inl e \<Rightarrow> [] | Inr t \<Rightarrow> [t]) rows)"

definition malformed :: "'f builtins \<Rightarrow> 'f row \<Rightarrow> bool" where
  "malformed env r = isl (parse_row env r)"

text \<open>
  The ledger's invariant: every block's stored digest is the digest of its stored fields,
  and every block after the first stores the digest of the block before it.
\<close>

definition chain_consistent :: "'f builtins \<Rightarrow> 'f block list \<Rightarrow> bool" where
  "chain_consistent env ch =
     (\<forall>i < length ch. hash (ch ! i) = calculate_hash env (ch ! i) \<and>
        (0 < i \<longrightarrow> previous_hash (ch ! i) = hash (ch ! (i - 1))))"

text \<open>
  The chain starts with the block \<open>g\<close>, and every block's \<^verbatim>\<open>index\<close> is its position.
\<close>

definition indexed :: "'f block \<Rightarrow> 'f block list \<Rightarrow> bool" where
  "indexed g ch = ((\<exists>rest. ch = g # rest) \<and> (\<forall>i < length ch. index (ch ! i) = i))"

text \<open>A list cut into consecutive pieces of \<open>n\<close> elements, the last one possibly shorter.\<close>

function chunks :: "nat \<Rightarrow> 'a list \<Rightarrow> 'a list list" where
  "chunks n xs = (if n = 0 \<or> xs = [] then [] else take n xs # chunks n (drop n xs))"
  by pat_completeness auto
termination
  by (relation "measure (\<lambda>(n, xs). length xs)") auto

declare chunks.simps [simp del]

text \<open>
  The number of transactions at which the pipeline closes a batch: the test
  \<^verbatim>\<open>len(txn_batch) >= block_size\<close> runs after an append, so a batch is never closed empty,
  and a \<open>block_size\<close> below 1 closes every batch at its first transaction.
\<close>

definition batch_size :: "int \<Rightarrow> nat" where
  "batch_size block_size = nat (max 1 block_size)"

text \<open>
  The state of the loop of \<^verbatim>\<open>process_transactions\<close> after the rows whose transactions are
  \<open>done\<close>: closed blocks are full, the pending batch is not.
\<close>

definition pipeline_inv ::
  "'f builtins \<Rightarrow> nat \<Rightarrow> 'f transaction list \<Rightarrow> 'f ledger \<times> 'f transaction list \<Rightarrow> bool" where
  "pipeline_inv env n done st =
     (case st of (l, txn_batch) \<Rightarrow>
        chain_consistent env (chain l) \<and> length txn_batch < n \<and>
        (\<exists>full. map transactions (chain l) = [] # full \<and> (\<forall>x \<in> set full. length x = n) \<and>
           all_transactions l = concat full \<and> concat full @ txn_batch = done))"

section \<open>A concrete instance for evaluating the definitions\<close>

text \<open>
  An instance of the built-ins on which every definition above computes: floats are
  restricted to whole numbers (printed with a trailing \<^verbatim>\<open>.0\<close>), text converts to a number
  when it is a non-empty run of decimal digits, and the digest is replaced by the
  identity, which has no collisions.
\<close>

definition digits_value :: "string \<Rightarrow> py_error + int" where
  "digits_value s =
     (if s \<noteq> [] \<and> list_all (\<lambda>c. c \<in> set ''0123456789'') s
      then Inr (foldl (\<lambda>a c. 10 * a + (of_char c - 48)) 0 s)
      else Inl ValueError)"

definition sample_builtins :: "int builtins" where
  "sample_builtins =
     \<lparr>sha256_hexdigest = (\<lambda>s. s),
      float_of_int = Inr,
      float_of_str = digits_value,
      int_of_float = Inr,
      int_of_str = digits_value,
      float_nonzero = (\<lambda>x. x \<noteq> 0),
      float_repr = (\<lambda>x. str_int x @ ''.0'')\<rparr>"

definition sample_clock :: "nat \<Rightarrow> int" where
  "sample_clock n = 1700000000 + int n"

definition sample_row :: "int \<Rightarrow> int \<Rightarrow> int pyval \<Rightarrow> int pyval \<Rightarrow> int row" where
  "sample_row s r a fl =
     map_of [(''Sender_account'', PInt s), (''Receiver_account'', PInt r), (''Amount'', a),
             (''Payment_currency'', PStr ''USD''), (''Is_laundering'', fl),
             (''Payment_type'', PStr ''Wire'')]"

text \<open>
  A well-formed row, the transaction built from it, and the ledger the pipeline builds
  from that row alone: the genesis block and one block holding the transaction.
\<close>

definition sample_good_row :: "int row" where
  "sample_good_row = sample_row 1 2 (PInt 30) (PInt 0)"

definition sample_bad_row :: "int row" where
  "sample_bad_row = sample_row 3 4 (PStr ''abc'') (PInt 1)"

definition sample_txn :: "int transaction" where
  "sample_txn =
     Transaction sample_builtins (PInt 1) (PInt 2) (PFloat 30) (PStr ''USD'') (PInt 0) (PStr ''Wire'')"

definition sample_genesis :: "int block" where
  "sample_genesis = create_genesis_block sample_builtins (sample_clock 0)"

definition sample_block1 :: "int block" where
  "sample_block1 = Block sample_builtins (sample_clock 1) 1 [sample_txn] (hash sample_genesis)"

definition sample_ledger :: "int ledger" where
  "sample_ledger = \<lparr>chain = [sample_genesis, sample_block1], all_transactions = [sample_txn]\<rparr>"

section \<open>Basic facts\<close>

subsection \<open>Blocks and chains\<close>

lemma Block_fields [simp]:
  "index (Block env now i txns p) = i"
  "timestamp (Block env now i txns p) = now"
  "transactions (Block env now i txns p) = txns"
  "previous_hash (Block env now i txns p) = p"
  by (simp_all add: Block_def Let_def)

lemma Block_hash [simp]:
  "hash (Block env now i txns p) = calculate_hash env (Block env now i txns p)"
  by (simp add: Block_def Let_def calculate_hash_def block_string_def)

lemma txn_str_nonempty: "txn_str env t \<noteq> []"
  by (simp add: txn_str_def)

lemma status_str_differs: "status_str True \<noteq> status_str False"
  by (simp add: status_str_def suspicious_mark_def normal_mark_def)

lemma is_chain_valid_loop_iff:
  "is_chain_valid_loop env ch k =
     (\<forall>i. k \<le> i \<and> i < length ch \<longrightarrow>
        hash (ch ! i) = calculate_hash env (ch ! i) \<and> previous_hash (ch ! i) = hash (ch ! (i - 1)))"
proof (induction env ch k rule: is_chain_valid_loop.induct)
  case (1 env ch i)
  show ?case
  proof (cases "i < length ch")
    case False
    then show ?thesis by (auto simp add: is_chain_valid_loop.simps [of env ch i])
  next
    case True
    let ?ok = "\<lambda>j. hash (ch ! j) = calculate_hash env (ch ! j) \<and> previous_hash (ch ! j) = hash (ch ! (j - 1))"
    show ?thesis
    proof (cases "?ok i")
      case False
      with True show ?thesis
        by (auto simp: is_chain_valid_loop.simps [of env ch i] Let_def)
    next
      case ok: True
      with True have "is_chain_valid_loop env ch i = is_chain_valid_loop env ch (Suc i)"
        by (simp add: is_chain_valid_loop.simps [of env ch i] Let_def)
      also have "\<dots> = (\<forall>j. Suc i \<le> j \<and> j < length ch \<longrightarrow> ?ok j)"
        using 1 [OF True refl refl] ok by simp
      also have "\<dots> = (\<forall>j. i \<le> j \<and> j < length ch \<longrightarrow> ?ok j)"
        using ok by (metis Suc_leI le_neq_implies_less Suc_leD)
      finally show ?thesis .
    qed
  qed
qed

lemma loop_fails_at:
  assumes "1 \<le> i" and "i < length ch" and "hash (ch ! i) \<noteq> calculate_hash env (ch ! i)"
  shows "\<not> is_chain_valid_loop env ch 1"
  unfolding is_chain_valid_loop_iff using assms by blast

lemma chain_consistent_genesis:
  "chain_consistent env (chain (BlockchainLedger env now))"
  by (simp add: chain_consistent_def BlockchainLedger_def create_genesis_block_def)

lemma chain_consistent_snoc:
  assumes "chain_consistent env ch" "ch \<noteq> []"
  shows "chain_consistent env (ch @ [Block env now (length ch) txns (hash (last ch))])"
  unfolding chain_consistent_def
proof (intro allI impI)
  fix i assume "i < length (ch @ [Block env now (length ch) txns (hash (last ch))])"
  then consider "i < length ch" | "i = length ch" by fastforce
  then show "hash ((ch @ [Block env now (length ch) txns (hash (last ch))]) ! i) =
        calculate_hash env ((ch @ [Block env now (length ch) txns (hash (last ch))]) ! i) \<and>
        (0 < i \<longrightarrow> previous_hash ((ch @ [Block env now (length ch) txns (hash (last ch))]) ! i) =
           hash ((ch @ [Block env now (length ch) txns (hash (last ch))]) ! (i - 1)))"
  proof cases
    case 1
    then have "i - 1 < length ch" by simp
    with 1 assms(1) show ?thesis
      by (simp add: chain_consistent_def nth_append)
  next
    case 2
    with assms(2) show ?thesis
      by (simp add: nth_append last_conv_nth)
  qed
qed

lemma add_block_Inr:
  "chain l \<noteq> [] \<Longrightarrow>
   add_block env now l txns =
     Inr (l\<lparr>chain := chain l @ [Block env now (length (chain l)) txns (hash (last (chain l)))],
            all_transactions := all_transactions l @ txns\<rparr>)"
  by (simp add: add_block_def get_latest_block_def)


lemma chain_consistent_valid:
  "chain_consistent env (chain l) \<Longrightarrow> is_chain_valid env l"
  by (simp add: is_chain_valid_def is_chain_valid_loop_iff chain_consistent_def)

lemma indexed_snoc:
  "indexed g ch \<Longrightarrow> indexed g (ch @ [Block env now (length ch) txns p])"
  by (auto simp: indexed_def nth_append)

lemma add_block_indexed:
  assumes "indexed g (chain l)" and "add_block env now l txns = Inr l'"
  shows "indexed g (chain l')"
proof (cases "chain l = []")
  case True
  with assms(2) show ?thesis by (simp add: add_block_def get_latest_block_def)
next
  case False
  from assms(2) have "chain l' = chain l @ [Block env now (length (chain l)) txns (hash (last (chain l)))]"
    using add_block_Inr [OF False, of env now txns] by auto
  with indexed_snoc [OF assms(1)] show ?thesis by simp
qed

lemma sum_flags:
  "sum_list (map (\<lambda>txn. if is_laundering txn then 1 else 0) ts) = int (length (filter is_laundering ts))"
  by (induction ts) simp_all

subsection \<open>Cutting a list into pieces\<close>

lemma chunks_Nil [simp]: "chunks n [] = []"
  by (simp add: chunks.simps [of n "[]"])

lemma chunks_step:
  "0 < n \<Longrightarrow> xs \<noteq> [] \<Longrightarrow> chunks n xs = take n xs # chunks n (drop n xs)"
  by (simp add: chunks.simps [of n xs])

lemma chunks_short:
  assumes "xs \<noteq> []" "length xs \<le> n"
  shows "chunks n xs = [xs]"
proof -
  from assms have "0 < n" by (cases xs) auto
  then have "chunks n xs = take n xs # chunks n (drop n xs)"
    using assms(1) by (rule chunks_step)
  with assms(2) show ?thesis by simp
qed

lemma chunks_full:
  "0 < n \<Longrightarrow> \<forall>x \<in> set full. length x = n \<Longrightarrow> chunks n (concat full @ r) = full @ chunks n r"
proof (induction full)
  case Nil
  then show ?case by simp
next
  case (Cons x full)
  then have "x \<noteq> []" by auto
  then have "chunks n (concat (x # full) @ r) =
      take n (concat (x # full) @ r) # chunks n (drop n (concat (x # full) @ r))"
    using Cons.prems(1) by (intro chunks_step) simp_all
  with Cons show ?case by simp
qed






subsection \<open>Rows\<close>

lemma valid_transactions_snoc:
  "valid_transactions env (rows @ [r]) =
     valid_transactions env rows @ (case parse_row env r of Inl e \<Rightarrow> [] | Inr t \<Rightarrow> [t])"
  by (simp add: valid_transactions_def)




lemma parse_row_flag:
  assumes "r ''Sender_account'' = Some s" and "r ''Receiver_account'' = Some rc"
    and "r ''Amount'' = Some a" and "py_float env a = Inr x"
    and "r ''Payment_currency'' = Some c" and "r ''Is_laundering'' = Some fl"
    and "r ''Payment_type'' = Some p"
  shows "parse_row env r =
     (case py_int env fl of
        Inl e \<Rightarrow> Inl e
      | Inr n \<Rightarrow> Inr (Transaction env s rc (PFloat x) c (PInt n) p))"
  using assms by (simp add: parse_row_def raising_def row_get_def)

subsection \<open>The loop of the pipeline\<close>



lemma pipeline_inv_init:
  "pipeline_inv env (batch_size bs) [] (BlockchainLedger env now, [])"
  using chain_consistent_genesis [of env now]
  by (simp add: pipeline_inv_def batch_size_def BlockchainLedger_def create_genesis_block_def)

lemma pipeline_inv_step:
  assumes "pipeline_inv env (batch_size bs) done st"
  shows "pipeline_inv env (batch_size bs)
           (done @ (case parse_row env r of Inl e \<Rightarrow> [] | Inr t \<Rightarrow> [t]))
           (process_row env clock bs st r)"
proof -
  obtain l txn_batch where st: "st = (l, txn_batch)" by (cases st)
  from assms st obtain full where
    cons: "chain_consistent env (chain l)" and
    len: "length txn_batch < batch_size bs" and
    shape: "map transactions (chain l) = [] # full" and
    full: "\<forall>x \<in> set full. length x = batch_size bs" and
    allt: "all_transactions l = concat full" and
    dn: "concat full @ txn_batch = done"
    by (auto simp: pipeline_inv_def)
  from shape have ne: "chain l \<noteq> []" by auto
  show ?thesis
  proof (cases "parse_row env r")
    case (Inl e)
    with assms st show ?thesis by (simp add: process_row_def)
  next
    case (Inr txn)
    show ?thesis
    proof (cases "int (length (txn_batch @ [txn])) \<ge> bs")
      case False
      then have "length (txn_batch @ [txn]) < batch_size bs"
        by (simp add: batch_size_def)
      with False Inr st cons shape full allt dn show ?thesis
        by (auto simp: process_row_def pipeline_inv_def Let_def)
    next
      case True
      with len have exact: "length (txn_batch @ [txn]) = batch_size bs"
        by (simp add: batch_size_def)
      have pos: "0 < batch_size bs" by (simp add: batch_size_def)
      let ?b = "Block env (clock (length (chain l))) (length (chain l)) (txn_batch @ [txn]) (hash (last (chain l)))"
      let ?l = "l\<lparr>chain := chain l @ [?b], all_transactions := all_transactions l @ (txn_batch @ [txn])\<rparr>"
      have step: "process_row env clock bs st r = (?l, [])"
        using True Inr st add_block_Inr [OF ne, of env "clock (length (chain l))" "txn_batch @ [txn]"]
        by (simp add: process_row_def Let_def)
      have "chain_consistent env (chain ?l)"
        using chain_consistent_snoc [OF cons ne] by simp
      moreover have "map transactions (chain ?l) = [] # (full @ [txn_batch @ [txn]])"
        using shape by simp
      moreover have "\<forall>x \<in> set (full @ [txn_batch @ [txn]]). length x = batch_size bs"
        using full exact by auto
      moreover have "all_transactions ?l = concat (full @ [txn_batch @ [txn]])"
        using allt by simp
      moreover have "concat (full @ [txn_batch @ [txn]]) @ [] = done @ [txn]"
        using dn by auto
      ultimately show ?thesis
        unfolding step pipeline_inv_def using pos Inr
        by (simp del: map_append concat_append)
    qed
  qed
qed

lemma pipeline_inv_foldl:
  "pipeline_inv env (batch_size bs) (valid_transactions env rows)
     (foldl (process_row env clock bs) (BlockchainLedger env now, []) rows)"
proof (induction rows rule: rev_induct)
  case Nil
  then show ?case
    using pipeline_inv_init [of env bs now] by (simp add: valid_transactions_def)
next
  case (snoc r rows)
  then show ?case
    using pipeline_inv_step [OF snoc, of r clock]
    by (simp add: valid_transactions_snoc)
qed

lemma process_transactions_result:
  "\<exists>l. process_transactions env clock rows bs = Inr l \<and>
       chain_consistent env (chain l) \<and>
       map transactions (chain l) = [] # chunks (batch_size bs) (valid_transactions env rows) \<and>
       all_transactions l = valid_transactions env rows"
proof -
  obtain l txn_batch where st:
    "foldl (process_row env clock bs) (BlockchainLedger env (clock 0), []) rows = (l, txn_batch)"
    by (cases "foldl (process_row env clock bs) (BlockchainLedger env (clock 0), []) rows")
  from pipeline_inv_foldl [of env bs rows clock "clock 0"] st obtain full where
    cons: "chain_consistent env (chain l)" and
    len: "length txn_batch < batch_size bs" and
    shape: "map transactions (chain l) = [] # full" and
    full: "\<forall>x \<in> set full. length x = batch_size bs" and
    allt: "all_transactions l = concat full" and
    dn: "concat full @ txn_batch = valid_transactions env rows"
    by (auto simp: pipeline_inv_def)
  from shape have ne: "chain l \<noteq> []" by auto
  have pos: "0 < batch_size bs" by (simp add: batch_size_def)
  have ch: "chunks (batch_size bs) (valid_transactions env rows) = full @ chunks (batch_size bs) txn_batch"
    using chunks_full [OF pos full, of txn_batch] dn by simp
  show ?thesis
  proof (cases "txn_batch = []")
    case True
    with st cons shape allt dn ch show ?thesis
      by (simp add: process_transactions_def)
  next
    case False
    let ?b = "Block env (clock (length (chain l))) (length (chain l)) txn_batch (hash (last (chain l)))"
    let ?l = "l\<lparr>chain := chain l @ [?b], all_transactions := all_transactions l @ txn_batch\<rparr>"
    have res: "process_transactions env clock rows bs = Inr ?l"
      using False st add_block_Inr [OF ne, of env "clock (length (chain l))" txn_batch]
      by (simp add: process_transactions_def)
    have "chunks (batch_size bs) txn_batch = [txn_batch]"
      using False len by (intro chunks_short) simp_all
    with ch have a: "map transactions (chain ?l) = [] # chunks (batch_size bs) (valid_transactions env rows)"
      using shape by simp
    have b: "chain_consistent env (chain ?l)"
      using chain_consistent_snoc [OF cons ne] by simp
    have c: "all_transactions ?l = valid_transactions env rows"
      using allt dn by simp
    show ?thesis
      by (rule exI [of _ ?l]) (rule conjI res a b c)+
  qed
qed

lemma built_chain_consistent:
  "process_transactions env clock rows block_size = Inr l \<Longrightarrow> chain_consistent env (chain l)"
  using process_transactions_result [of env clock rows block_size] by auto


lemma process_row_indexed:
  assumes "indexed g (chain (fst st))"
  shows "indexed g (chain (fst (process_row env clock bs st r)))"
proof -
  obtain l txn_batch where st: "st = (l, txn_batch)" by (cases st)
  show ?thesis
  proof (cases "parse_row env r")
    case (Inl e)
    with assms st show ?thesis by (simp add: process_row_def)
  next
    case (Inr txn)
    show ?thesis
    proof (cases "add_block env (clock (length (chain l))) l (txn_batch @ [txn])")
      case (Inl e)
      with Inr assms st show ?thesis by (simp add: process_row_def Let_def)
    next
      case added: (Inr l')
      with assms st have "indexed g (chain l')" by (auto intro: add_block_indexed)
      with added Inr assms st show ?thesis by (simp add: process_row_def Let_def)
    qed
  qed
qed

lemma foldl_process_row_indexed:
  "indexed g (chain (fst st)) \<Longrightarrow> indexed g (chain (fst (foldl (process_row env clock bs) st rows)))"
  by (induction rows rule: rev_induct) (simp_all add: process_row_indexed)

lemma built_chain_indexed:
  assumes "process_transactions env clock rows block_size = Inr l"
  shows "indexed (create_genesis_block env (clock 0)) (chain l)"
proof -
  let ?st = "foldl (process_row env clock block_size) (BlockchainLedger env (clock 0), []) rows"
  let ?g = "create_genesis_block env (clock 0)"
  have "indexed ?g (chain (fst (BlockchainLedger env (clock 0), [])))"
    by (simp add: indexed_def BlockchainLedger_def create_genesis_block_def)
  then have ix: "indexed ?g (chain (fst ?st))" by (rule foldl_process_row_indexed)
  obtain l0 txn_batch where st: "?st = (l0, txn_batch)" by (cases ?st)
  show ?thesis
  proof (cases "txn_batch = []")
    case True
    with assms st ix show ?thesis by (simp add: process_transactions_def)
  next
    case False
    with assms st have "add_block env (clock (length (chain l0))) l0 txn_batch = Inr l"
      by (simp add: process_transactions_def)
    with ix st show ?thesis by (auto intro: add_block_indexed)
  qed
qed

subsection \<open>The concrete instance\<close>

lemma digits_lt10: "n < 10 \<Longrightarrow> digits n = [digit_char n]"
  by (simp add: digits.simps [of n])

lemma digits_ge10: "10 \<le> n \<Longrightarrow> digits n = digits (n div 10) @ [digit_char (n mod 10)]"
  by (simp add: digits.simps [of n])

lemma str_int_samples:
  "str_int 0 = ''0''" "str_int 1 = ''1''" "str_int 2 = ''2''" "str_int 30 = ''30''"
  "str_int 1700000000 = ''1700000000''" "str_int 1700000001 = ''1700000001''"
  by (simp_all add: str_int_def digits_lt10 digits_ge10 digit_char_def)

lemma parse_sample_row_ok:
  "parse_row sample_builtins (sample_row s r (PInt a) (PInt f)) =
     Inr (Transaction sample_builtins (PInt s) (PInt r) (PFloat a) (PStr ''USD'') (PInt f) (PStr ''Wire''))"
  by (simp add: parse_row_def sample_row_def row_get_def raising_def sample_builtins_def)

lemma parse_sample_row_bad:
  "parse_row sample_builtins (sample_row s r (PStr ''abc'') fl) = Inl ValueError"
  by (simp add: parse_row_def sample_row_def row_get_def raising_def sample_builtins_def
      digits_value_def)

lemma parse_sample_good_row: "parse_row sample_builtins sample_good_row = Inr sample_txn"
  by (simp add: sample_good_row_def sample_txn_def parse_sample_row_ok)

lemma parse_sample_bad_row: "parse_row sample_builtins sample_bad_row = Inl ValueError"
  by (simp add: sample_bad_row_def parse_sample_row_bad)

lemma sample_genesis_chain:
  "BlockchainLedger sample_builtins (sample_clock 0) = \<lparr>chain = [sample_genesis], all_transactions = []\<rparr>"
  by (simp add: BlockchainLedger_def sample_genesis_def)

lemma process_sample_ledger:
  "process_transactions sample_builtins sample_clock [sample_good_row] 100 = Inr sample_ledger"
  by (simp add: process_transactions_def process_row_def parse_sample_good_row sample_genesis_chain
      add_block_Inr sample_ledger_def sample_block1_def)

lemma sample_block1_hash: "hash sample_block1 = calculate_hash sample_builtins sample_block1"
  by (simp add: sample_block1_def)



lemma malformed_sample_rows [simp]:
  "malformed sample_builtins sample_good_row = False"
  "malformed sample_builtins sample_bad_row = True"
  by (simp_all add: malformed_def parse_sample_good_row parse_sample_bad_row)

section \<open>Chain verification\<close>

text \<open>
  Claim C1, as amended. \<^verbatim>\<open>is_chain_valid\<close> returns true exactly when every block from
  index 1 onward passes two checks: its stored digest equals the digest recomputed from
  its stored fields, and its \<^verbatim>\<open>previous_hash\<close> equals the digest STORED in the block before
  it. A failing check at any index makes the result false. No condition is put on the
  digest of the block at index 0: the genesis block is never recomputed.
\<close>

theorem is_chain_valid_checks:
  "is_chain_valid env l =
     (\<forall>i. 1 \<le> i \<and> i < length (chain l) \<longrightarrow>
        hash (chain l ! i) = calculate_hash env (chain l ! i) \<and>
        previous_hash (chain l ! i) = hash (chain l ! (i - 1)))"
  unfolding is_chain_valid_def by (rule is_chain_valid_loop_iff)

theorem is_chain_valid_checks_witness:
  "is_chain_valid sample_builtins sample_ledger \<and>
   \<not> is_chain_valid sample_builtins
       (sample_ledger\<lparr>chain := [sample_genesis, sample_block1\<lparr>previous_hash := ''0''\<rparr>]\<rparr>)"
proof
  have "\<And>i. 1 \<le> i \<and> i < length (chain sample_ledger) \<Longrightarrow> i = 1"
    by (simp add: sample_ledger_def)
  then show "is_chain_valid sample_builtins sample_ledger"
    unfolding is_chain_valid_checks [of sample_builtins sample_ledger]
    by (auto simp: sample_ledger_def sample_block1_hash) (simp add: sample_block1_def)
next
  let ?l = "sample_ledger\<lparr>chain := [sample_genesis, sample_block1\<lparr>previous_hash := ''0''\<rparr>]\<rparr>"
  have "hash sample_genesis \<noteq> ''0''"
    by (simp add: sample_genesis_def create_genesis_block_def calculate_hash_def block_string_def
        sample_builtins_def)
  then have "\<not> (1 \<le> (1::nat) \<and> 1 < length (chain ?l) \<longrightarrow>
        hash (chain ?l ! 1) = calculate_hash sample_builtins (chain ?l ! 1) \<and>
        previous_hash (chain ?l ! 1) = hash (chain ?l ! (1 - 1)))"
    by simp
  then show "\<not> is_chain_valid sample_builtins ?l"
    unfolding is_chain_valid_checks [of sample_builtins ?l] by blast
qed

text \<open>
  Claim C1 as stated fails. It asks that every \<^verbatim>\<open>previous_hash\<close> be compared with the
  RECOMPUTED digest of the block before, so that a genesis block whose fields no longer
  give its stored digest makes verification fail. Here the genesis block of the sample
  ledger has received a transaction after construction (its stored digest untouched): its
  fields no longer recompute to its stored digest, and the ledger is still accepted.
\<close>

theorem tampered_genesis_accepted:
  "hash (sample_genesis\<lparr>transactions := [sample_txn]\<rparr>) \<noteq>
     calculate_hash sample_builtins (sample_genesis\<lparr>transactions := [sample_txn]\<rparr>) \<and>
   is_chain_valid sample_builtins
     (sample_ledger\<lparr>chain := [sample_genesis\<lparr>transactions := [sample_txn]\<rparr>, sample_block1]\<rparr>)"
proof
  show "hash (sample_genesis\<lparr>transactions := [sample_txn]\<rparr>) \<noteq>
     calculate_hash sample_builtins (sample_genesis\<lparr>transactions := [sample_txn]\<rparr>)"
    by (simp add: sample_genesis_def create_genesis_block_def calculate_hash_def block_string_def
        sample_builtins_def txn_str_nonempty)
next
  let ?ch = "[sample_genesis\<lparr>transactions := [sample_txn]\<rparr>, sample_block1]"
  have "\<And>i. 1 \<le> i \<and> i < length ?ch \<Longrightarrow> i = 1" by simp
  then have "is_chain_valid_loop sample_builtins ?ch 1"
    unfolding is_chain_valid_loop_iff
    by (auto simp: sample_block1_hash) (simp add: sample_block1_def)
  then show "is_chain_valid sample_builtins (sample_ledger\<lparr>chain := ?ch\<rparr>)"
    by (simp add: is_chain_valid_def)
qed

text \<open>
  Claim C9. The result of \<^verbatim>\<open>is_chain_valid\<close> depends on the first block only through its
  stored \<^verbatim>\<open>hash\<close> field: replacing the genesis block by any block with the same stored hash
  (other transactions, another timestamp, index or previous hash) leaves the result as
  it was; on a ledger built by the pipeline the result therefore stays true.
\<close>

theorem genesis_never_recomputed:
  assumes "chain l = g # rest" and "hash g' = hash g"
  shows "is_chain_valid env (l\<lparr>chain := g' # rest\<rparr>) = is_chain_valid env l \<and>
         (process_transactions env clock rows block_size = Inr l \<longrightarrow>
            is_chain_valid env (l\<lparr>chain := g' # rest\<rparr>))"
proof -
  have "\<And>i. 1 \<le> i \<Longrightarrow> i < length (g # rest) \<Longrightarrow>
      (hash ((g' # rest) ! i) = calculate_hash env ((g' # rest) ! i) \<and>
       previous_hash ((g' # rest) ! i) = hash ((g' # rest) ! (i - 1))) =
      (hash ((g # rest) ! i) = calculate_hash env ((g # rest) ! i) \<and>
       previous_hash ((g # rest) ! i) = hash ((g # rest) ! (i - 1)))"
  proof -
    fix i :: nat assume "1 \<le> i" "i < length (g # rest)"
    then obtain k where k: "i = Suc k" by (cases i) auto
    show "(hash ((g' # rest) ! i) = calculate_hash env ((g' # rest) ! i) \<and>
       previous_hash ((g' # rest) ! i) = hash ((g' # rest) ! (i - 1))) =
      (hash ((g # rest) ! i) = calculate_hash env ((g # rest) ! i) \<and>
       previous_hash ((g # rest) ! i) = hash ((g # rest) ! (i - 1)))"
      using assms(2) k by (cases k) simp_all
  qed
  then have "is_chain_valid_loop env (g' # rest) 1 = is_chain_valid_loop env (g # rest) 1"
    unfolding is_chain_valid_loop_iff by auto
  with assms(1) have same: "is_chain_valid env (l\<lparr>chain := g' # rest\<rparr>) = is_chain_valid env l"
    by (simp add: is_chain_valid_def)
  have "is_chain_valid env l" if "process_transactions env clock rows block_size = Inr l"
    using process_transactions_result [of env clock rows block_size] that
    by (auto intro: chain_consistent_valid)
  with same show ?thesis by simp
qed

theorem genesis_never_recomputed_witness:
  "chain sample_ledger = sample_genesis # [sample_block1] \<and>
   hash (sample_genesis\<lparr>transactions := [sample_txn], timestamp := 0\<rparr>) = hash sample_genesis \<and>
   process_transactions sample_builtins sample_clock [sample_good_row] 100 = Inr sample_ledger \<and>
   is_chain_valid sample_builtins
     (sample_ledger\<lparr>chain := sample_genesis\<lparr>transactions := [sample_txn], timestamp := 0\<rparr> # [sample_block1]\<rparr>)"
proof -
  have c: "chain sample_ledger = sample_genesis # [sample_block1]"
    by (simp add: sample_ledger_def)
  have h: "hash (sample_genesis\<lparr>transactions := [sample_txn], timestamp := 0\<rparr>) = hash sample_genesis"
    by simp
  have "process_transactions sample_builtins sample_clock [sample_good_row] 100 = Inr sample_ledger \<longrightarrow>
      is_chain_valid sample_builtins
        (sample_ledger\<lparr>chain := sample_genesis\<lparr>transactions := [sample_txn], timestamp := 0\<rparr> # [sample_block1]\<rparr>)"
    using genesis_never_recomputed [OF c h, of sample_builtins sample_clock "[sample_good_row]" 100]
    by (rule conjunct2)
  with c h process_sample_ledger show ?thesis by blast
qed

text \<open>
  Claim C2. Take a ledger built by the pipeline, a block of it other than the genesis
  block, and a transaction of that block; replace the transaction by any other value
  (in particular by the same transaction with one field changed), leaving every stored
  digest as it is. If the block's serialized contents differ from the original, and the
  digest function does not send these two strings to the same digest, then
  \<^verbatim>\<open>is_chain_valid\<close> is false. The transaction objects are shared with
  \<^verbatim>\<open>all_transactions\<close>, which the verification never reads: its value \<open>ats\<close> is arbitrary.
\<close>

theorem tampered_transaction_detected:
  assumes built: "process_transactions env clock rows block_size = Inr l"
    and i: "1 \<le> i" "i < length (chain l)"
    and j: "j < length (transactions (chain l ! i))"
    and differ: "block_string env ((chain l ! i)\<lparr>transactions := (transactions (chain l ! i))[j := t']\<rparr>) \<noteq>
                 block_string env (chain l ! i)"
    and no_collision:
      "sha256_hexdigest env (block_string env ((chain l ! i)\<lparr>transactions := (transactions (chain l ! i))[j := t']\<rparr>)) =
       sha256_hexdigest env (block_string env (chain l ! i)) \<longrightarrow>
       block_string env ((chain l ! i)\<lparr>transactions := (transactions (chain l ! i))[j := t']\<rparr>) =
       block_string env (chain l ! i)"
  shows "\<not> is_chain_valid env
           (l\<lparr>chain := (chain l)[i := (chain l ! i)\<lparr>transactions := (transactions (chain l ! i))[j := t']\<rparr>],
              all_transactions := ats\<rparr>)"
proof -
  let ?b = "chain l ! i"
  let ?b' = "?b\<lparr>transactions := (transactions ?b)[j := t']\<rparr>"
  let ?ch = "(chain l)[i := ?b']"
  from built have "chain_consistent env (chain l)" by (rule built_chain_consistent)
  with i(2) have stored: "hash ?b = calculate_hash env ?b"
    by (simp add: chain_consistent_def)
  from differ no_collision have "calculate_hash env ?b' \<noteq> calculate_hash env ?b"
    unfolding calculate_hash_def by blast
  with stored have "hash ?b' \<noteq> calculate_hash env ?b'" by simp
  moreover from i(2) have "?ch ! i = ?b'" by simp
  ultimately have "hash (?ch ! i) \<noteq> calculate_hash env (?ch ! i)" by simp
  moreover from i(2) have "i < length ?ch" by simp
  ultimately have "\<not> is_chain_valid_loop env ?ch 1"
    using i(1) by (intro loop_fails_at [of i])
  then show ?thesis by (simp add: is_chain_valid_def)
qed

theorem tampered_transaction_detected_witness:
  "process_transactions sample_builtins sample_clock [sample_good_row] 100 = Inr sample_ledger \<and>
   (1::nat) \<le> 1 \<and> 1 < length (chain sample_ledger) \<and>
   0 < length (transactions (chain sample_ledger ! 1)) \<and>
   block_string sample_builtins (sample_block1\<lparr>transactions := [sample_txn\<lparr>is_laundering := True\<rparr>]\<rparr>) \<noteq>
     block_string sample_builtins sample_block1 \<and>
   \<not> is_chain_valid sample_builtins
       (sample_ledger\<lparr>chain := [sample_genesis, sample_block1\<lparr>transactions := [sample_txn\<lparr>is_laundering := True\<rparr>]\<rparr>],
                      all_transactions := [sample_txn\<lparr>is_laundering := True\<rparr>]\<rparr>)"
proof -
  let ?t' = "sample_txn\<lparr>is_laundering := True\<rparr>"
  have b1: "chain sample_ledger ! 1 = sample_block1" by (simp add: sample_ledger_def)
  have tx: "transactions sample_block1 = [sample_txn]" by (simp add: sample_block1_def)
  have len: "1 < length (chain sample_ledger)" by (simp add: sample_ledger_def)
  have j: "0 < length (transactions (chain sample_ledger ! 1))" unfolding b1 tx by simp
  have fl: "is_laundering sample_txn = False"
    by (simp add: sample_txn_def Transaction_def)
  have differ: "block_string sample_builtins (sample_block1\<lparr>transactions := [?t']\<rparr>) \<noteq>
      block_string sample_builtins sample_block1"
    by (simp add: block_string_def tx txn_str_def fl status_str_differs)
  have differ': "block_string sample_builtins
       ((chain sample_ledger ! 1)\<lparr>transactions := (transactions (chain sample_ledger ! 1))[0 := ?t']\<rparr>) \<noteq>
      block_string sample_builtins (chain sample_ledger ! 1)"
    using differ unfolding b1 tx by simp
  have nc: "sha256_hexdigest sample_builtins (block_string sample_builtins
       ((chain sample_ledger ! 1)\<lparr>transactions := (transactions (chain sample_ledger ! 1))[0 := ?t']\<rparr>)) =
     sha256_hexdigest sample_builtins (block_string sample_builtins (chain sample_ledger ! 1)) \<longrightarrow>
     block_string sample_builtins
       ((chain sample_ledger ! 1)\<lparr>transactions := (transactions (chain sample_ledger ! 1))[0 := ?t']\<rparr>) =
     block_string sample_builtins (chain sample_ledger ! 1)"
    by (simp add: sample_builtins_def)
  have "\<not> is_chain_valid sample_builtins
      (sample_ledger\<lparr>chain := (chain sample_ledger)[1 := (chain sample_ledger ! 1)\<lparr>transactions :=
           (transactions (chain sample_ledger ! 1))[0 := ?t']\<rparr>],
         all_transactions := [?t']\<rparr>)"
    by (rule tampered_transaction_detected [OF process_sample_ledger order_refl len j differ' nc])
  then have "\<not> is_chain_valid sample_builtins
       (sample_ledger\<lparr>chain := [sample_genesis, sample_block1\<lparr>transactions := [?t']\<rparr>],
                      all_transactions := [?t']\<rparr>)"
    unfolding b1 tx by (simp add: sample_ledger_def)
  with process_sample_ledger len j differ show ?thesis by (intro conjI) simp_all
qed

section \<open>Appending a block\<close>

text \<open>
  Claim C4 as stated fails: \<^verbatim>\<open>add_block\<close> has no test for an empty batch. Called with an
  empty batch on a fresh ledger, it leaves a chain of two blocks where there was one.
\<close>

theorem add_block_empty_batch_grows:
  "(case add_block sample_builtins (sample_clock 1) (BlockchainLedger sample_builtins (sample_clock 0)) [] of
      Inl e \<Rightarrow> False
    | Inr l' \<Rightarrow> length (chain (BlockchainLedger sample_builtins (sample_clock 0))) = 1 \<and>
               length (chain l') = 2)"
  by (simp add: sample_genesis_chain add_block_Inr)

text \<open>
  Claim C4, as amended. On a ledger with a non-empty chain (every ledger the constructor
  and \<^verbatim>\<open>add_block\<close> produce), \<^verbatim>\<open>add_block\<close> with an empty batch appends one block with no
  transactions: the blocks already there are unchanged, the chain is one longer, and
  \<^verbatim>\<open>all_transactions\<close> is unchanged.
\<close>

theorem add_block_empty_batch:
  assumes "chain l \<noteq> []"
  shows "\<exists>l'. add_block env now l [] = Inr l' \<and>
           chain l' = chain l @ [Block env now (length (chain l)) [] (hash (last (chain l)))] \<and>
           length (chain l') = length (chain l) + 1 \<and>
           transactions (last (chain l')) = [] \<and>
           all_transactions l' = all_transactions l"
  using assms by (simp add: add_block_Inr)

theorem add_block_empty_batch_witness:
  "chain sample_ledger \<noteq> [] \<and>
   (\<exists>l'. add_block sample_builtins (sample_clock 2) sample_ledger [] = Inr l' \<and>
      length (chain l') = 3 \<and> length (all_transactions l') = 1)"
proof -
  have c: "chain sample_ledger \<noteq> []" by (simp add: sample_ledger_def)
  from add_block_empty_batch [OF c, of sample_builtins "sample_clock 2"]
  show ?thesis using c by (auto simp: sample_ledger_def)
qed

section \<open>Ledgers built by the pipeline\<close>










section \<open>The flag of a transaction\<close>

text \<open>
  Claim C10. \<^verbatim>\<open>Transaction.__init__\<close> accepts every value as the flag and stores its
  truthiness: \<^verbatim>\<open>None\<close>, 0 and the empty string give false, every non-zero integer and every
  non-empty string give true, a float gives the answer of its own non-zero test and a
  boolean itself. A flag is rejected only in \<^verbatim>\<open>process_transactions\<close>: on a row whose other
  fields are present and whose amount converts, the construction fails exactly when
  \<^verbatim>\<open>int\<close> of the raw flag fails, with that exception, and otherwise builds the transaction
  from the converted integer.
\<close>

theorem flag_coerced_by_truthiness:
  "is_laundering (Transaction env s rc a c fl p) = py_bool env fl \<and>
   py_bool env PNone = False \<and> py_bool env (PInt 0) = False \<and> py_bool env (PStr []) = False \<and>
   (n \<noteq> 0 \<longrightarrow> py_bool env (PInt n)) \<and>
   (str \<noteq> [] \<longrightarrow> py_bool env (PStr str)) \<and>
   py_bool env (PFloat x) = float_nonzero env x \<and>
   py_bool env (PBool b) = b \<and>
   (r ''Sender_account'' = Some s \<and> r ''Receiver_account'' = Some rc \<and>
    r ''Amount'' = Some a \<and> py_float env a = Inr y \<and>
    r ''Payment_currency'' = Some c \<and> r ''Is_laundering'' = Some fl \<and>
    r ''Payment_type'' = Some p \<longrightarrow>
      parse_row env r =
        (case py_int env fl of
           Inl e \<Rightarrow> Inl e
         | Inr k \<Rightarrow> Inr (Transaction env s rc (PFloat y) c (PInt k) p)))"
proof (intro conjI impI)
  show "is_laundering (Transaction env s rc a c fl p) = py_bool env fl"
    by (simp add: Transaction_def)
  show "parse_row env r =
        (case py_int env fl of
           Inl e \<Rightarrow> Inl e
         | Inr k \<Rightarrow> Inr (Transaction env s rc (PFloat y) c (PInt k) p))"
    if "r ''Sender_account'' = Some s \<and> r ''Receiver_account'' = Some rc \<and>
    r ''Amount'' = Some a \<and> py_float env a = Inr y \<and>
    r ''Payment_currency'' = Some c \<and> r ''Is_laundering'' = Some fl \<and>
    r ''Payment_type'' = Some p"
    using that by (elim conjE) (rule parse_row_flag)
qed simp_all

theorem flag_coerced_by_truthiness_witness:
  "is_laundering (Transaction sample_builtins (PInt 1) (PInt 2) (PFloat 30) (PStr ''USD'') (PStr ''abc'') (PStr ''Wire'')) \<and>
   \<not> is_laundering (Transaction sample_builtins (PInt 1) (PInt 2) (PFloat 30) (PStr ''USD'') PNone (PStr ''Wire'')) \<and>
   is_laundering (Transaction sample_builtins (PInt 1) (PInt 2) (PFloat 30) (PStr ''USD'') (PInt 7) (PStr ''Wire'')) \<and>
   parse_row sample_builtins (sample_row 1 2 (PInt 30) (PStr ''abc'')) = Inl ValueError \<and>
   parse_row sample_builtins (sample_row 1 2 (PInt 30) PNone) = Inl TypeError \<and>
   parse_row sample_builtins (sample_row 1 2 (PInt 30) (PInt 7)) =
     Inr (Transaction sample_builtins (PInt 1) (PInt 2) (PFloat 30) (PStr ''USD'') (PInt 7) (PStr ''Wire''))"
proof -
  note th = flag_coerced_by_truthiness
  have rows: "sample_row 1 2 (PInt 30) v ''Sender_account'' = Some (PInt 1) \<and>
      sample_row 1 2 (PInt 30) v ''Receiver_account'' = Some (PInt 2) \<and>
      sample_row 1 2 (PInt 30) v ''Amount'' = Some (PInt 30) \<and>
      py_float sample_builtins (PInt 30) = Inr 30 \<and>
      sample_row 1 2 (PInt 30) v ''Payment_currency'' = Some (PStr ''USD'') \<and>
      sample_row 1 2 (PInt 30) v ''Is_laundering'' = Some v \<and>
      sample_row 1 2 (PInt 30) v ''Payment_type'' = Some (PStr ''Wire'')" for v
    by (simp add: sample_row_def sample_builtins_def)
  have abc: "py_int sample_builtins (PStr ''abc'') = Inl ValueError"
    by (simp add: sample_builtins_def digits_value_def)
  have t1: "is_laundering (Transaction sample_builtins (PInt 1) (PInt 2) (PFloat 30) (PStr ''USD'') (PStr ''abc'') (PStr ''Wire''))"
    using th [of sample_builtins "PInt 1" "PInt 2" "PFloat 30" "PStr ''USD''" "PStr ''abc''" "PStr ''Wire''", THEN conjunct1]
    by simp
  have t2: "\<not> is_laundering (Transaction sample_builtins (PInt 1) (PInt 2) (PFloat 30) (PStr ''USD'') PNone (PStr ''Wire''))"
    using th [of sample_builtins "PInt 1" "PInt 2" "PFloat 30" "PStr ''USD''" PNone "PStr ''Wire''", THEN conjunct1]
    by simp
  have t3: "is_laundering (Transaction sample_builtins (PInt 1) (PInt 2) (PFloat 30) (PStr ''USD'') (PInt 7) (PStr ''Wire''))"
    using th [of sample_builtins "PInt 1" "PInt 2" "PFloat 30" "PStr ''USD''" "PInt 7" "PStr ''Wire''", THEN conjunct1]
    by simp
  have p: "parse_row sample_builtins (sample_row 1 2 (PInt 30) v) =
        (case py_int sample_builtins v of
           Inl e \<Rightarrow> Inl e
         | Inr k \<Rightarrow> Inr (Transaction sample_builtins (PInt 1) (PInt 2) (PFloat 30) (PStr ''USD'') (PInt k) (PStr ''Wire'')))" for v
    by (rule mp [OF th [THEN conjunct2, THEN conjunct2, THEN conjunct2, THEN conjunct2,
          THEN conjunct2, THEN conjunct2, THEN conjunct2, THEN conjunct2] rows])
  have p1: "parse_row sample_builtins (sample_row 1 2 (PInt 30) (PStr ''abc'')) = Inl ValueError"
    using abc by (simp add: p)
  have p2: "parse_row sample_builtins (sample_row 1 2 (PInt 30) PNone) = Inl TypeError"
    by (simp add: p)
  have p3: "parse_row sample_builtins (sample_row 1 2 (PInt 30) (PInt 7)) =
     Inr (Transaction sample_builtins (PInt 1) (PInt 2) (PFloat 30) (PStr ''USD'') (PInt 7) (PStr ''Wire''))"
    by (simp add: p)
  show ?thesis
    by (intro conjI t1 t2 t3 p1 p2 p3)
qed

section \<open>Further properties\<close>

text \<open>
  The layout of a digest (the part of claim C5 that is not about the text of a float). In
  a ledger built by the pipeline every block, the genesis block included, stores the
  digest of the concatenation of: its position in the chain in decimal, which is also
  its \<^verbatim>\<open>index\<close>; the text of its timestamp; the strings of its transactions in order;
  and its \<^verbatim>\<open>previous_hash\<close>, which is \<^verbatim>\<open>"0"\<close> for the genesis block and the stored digest of
  the block before for every other block. The string of a transaction lists sender,
  receiver, amount, currency, payment type and the status mark, in this order.
\<close>

theorem block_digest_layout:
  assumes "process_transactions env clock rows block_size = Inr l" and "i < length (chain l)"
  shows "hash (chain l ! i) =
           sha256_hexdigest env
             (str_int (int i) @ float_repr env (timestamp (chain l ! i)) @
              concat (map (txn_str env) (transactions (chain l ! i))) @
              previous_hash (chain l ! i)) \<and>
         index (chain l ! i) = i \<and>
         previous_hash (chain l ! i) = (if i = 0 then ''0'' else hash (chain l ! (i - 1))) \<and>
         txn_str env t =
           py_str env (sender t) @ '' '' @ arrow_mark @ '' '' @ py_str env (receiver t) @ '' | '' @
           py_str env (amount t) @ '' '' @ py_str env (currency t) @ '' | '' @
           py_str env (payment_type t) @ '' | '' @
           (if is_laundering t then suspicious_mark @ '' Suspicious'' else normal_mark @ '' Normal'')"
proof (intro conjI)
  from assms(1) have cons: "chain_consistent env (chain l)" by (rule built_chain_consistent)
  from assms(1) have ix: "indexed (create_genesis_block env (clock 0)) (chain l)"
    by (rule built_chain_indexed)
  from ix assms(2) show idx: "index (chain l ! i) = i" by (simp add: indexed_def)
  from cons assms(2) have "hash (chain l ! i) = calculate_hash env (chain l ! i)"
    by (simp add: chain_consistent_def)
  with idx show "hash (chain l ! i) =
           sha256_hexdigest env
             (str_int (int i) @ float_repr env (timestamp (chain l ! i)) @
              concat (map (txn_str env) (transactions (chain l ! i))) @
              previous_hash (chain l ! i))"
    by (simp add: calculate_hash_def block_string_def)
  show "previous_hash (chain l ! i) = (if i = 0 then ''0'' else hash (chain l ! (i - 1)))"
  proof (cases "i = 0")
    case True
    from ix obtain rest where "chain l = create_genesis_block env (clock 0) # rest"
      by (auto simp: indexed_def)
    with True show ?thesis by (simp add: create_genesis_block_def)
  next
    case False
    with cons assms(2) show ?thesis by (simp add: chain_consistent_def)
  qed
  show "txn_str env t =
           py_str env (sender t) @ '' '' @ arrow_mark @ '' '' @ py_str env (receiver t) @ '' | '' @
           py_str env (amount t) @ '' '' @ py_str env (currency t) @ '' | '' @
           py_str env (payment_type t) @ '' | '' @
           (if is_laundering t then suspicious_mark @ '' Suspicious'' else normal_mark @ '' Normal'')"
    by (simp add: txn_str_def status_str_def)
qed

theorem block_digest_layout_witness:
  "process_transactions sample_builtins sample_clock [sample_good_row] 100 = Inr sample_ledger \<and>
   1 < length (chain sample_ledger) \<and>
   hash (chain sample_ledger ! 1) =
     ''11700000001.01 '' @ [CHR 0xE2, CHR 0x86, CHR 0x92] @ '' 2 | 30.0 USD | Wire | '' @
     [CHR 0xE2, CHR 0x9C, CHR 0x85] @ '' Normal'' @ ''01700000000.00''"
proof -
  have len: "1 < length (chain sample_ledger)" by (simp add: sample_ledger_def)
  have b1: "chain sample_ledger ! 1 = sample_block1" "chain sample_ledger ! (1 - 1) = sample_genesis"
    by (simp_all add: sample_ledger_def)
  have ts: "timestamp sample_block1 = 1700000001" "transactions sample_block1 = [sample_txn]"
    by (simp_all add: sample_block1_def sample_clock_def)
  have g: "hash sample_genesis = ''01700000000.00''"
    by (simp add: sample_genesis_def create_genesis_block_def calculate_hash_def block_string_def
        sample_builtins_def sample_clock_def str_int_samples)
  have t: "txn_str sample_builtins sample_txn =
      ''1 '' @ [CHR 0xE2, CHR 0x86, CHR 0x92] @ '' 2 | 30.0 USD | Wire | '' @
      [CHR 0xE2, CHR 0x9C, CHR 0x85] @ '' Normal''"
    by (simp add: txn_str_def sample_txn_def Transaction_def status_str_def arrow_mark_def
        normal_mark_def sample_builtins_def str_int_samples)
  note th = block_digest_layout [OF process_sample_ledger len, of sample_txn]
  from th have "hash (chain sample_ledger ! 1) =
      sha256_hexdigest sample_builtins
        (str_int (int 1) @ float_repr sample_builtins (timestamp (chain sample_ledger ! 1)) @
         concat (map (txn_str sample_builtins) (transactions (chain sample_ledger ! 1))) @
         previous_hash (chain sample_ledger ! 1))"
    by (rule conjunct1)
  moreover from th have "previous_hash (chain sample_ledger ! 1) = hash (chain sample_ledger ! (1 - 1))"
    by simp
  ultimately have "hash (chain sample_ledger ! 1) =
      ''1'' @ ''1700000001.0'' @ txn_str sample_builtins sample_txn @ ''01700000000.00''"
    unfolding b1 ts g by (simp add: sample_builtins_def str_int_samples)
  then have "hash (chain sample_ledger ! 1) =
     ''11700000001.01 '' @ [CHR 0xE2, CHR 0x86, CHR 0x92] @ '' 2 | 30.0 USD | Wire | '' @
     [CHR 0xE2, CHR 0x9C, CHR 0x85] @ '' Normal'' @ ''01700000000.00''"
    unfolding t by simp
  with process_sample_ledger len show ?thesis by (intro conjI)
qed

text \<open>
  The counts of \<^verbatim>\<open>summary\<close>: the total is the length of \<^verbatim>\<open>all_transactions\<close>, the
  suspicious and normal counts are the numbers of flagged and unflagged transactions and
  add up to the total, and the block count is the length of the chain.
\<close>

theorem summary_counts:
  "Total_Transactions (summary l) = int (length (all_transactions l)) \<and>
   Suspicious (summary l) = int (length (filter_by_laundering l True)) \<and>
   Normal (summary l) = int (length (filter_by_laundering l False)) \<and>
   Suspicious (summary l) + Normal (summary l) = Total_Transactions (summary l) \<and>
   Total_Blocks (summary l) = int (length (chain l))"
proof -
  have "length (filter is_laundering (all_transactions l)) +
        length (filter (\<lambda>t. \<not> is_laundering t) (all_transactions l)) = length (all_transactions l)"
    by (rule sum_length_filter_compl)
  then have "int (length (all_transactions l)) - int (length (filter is_laundering (all_transactions l))) =
      int (length (filter (\<lambda>t. \<not> is_laundering t) (all_transactions l)))"
    by linarith
  then show ?thesis
    by (simp add: summary_def Let_def sum_flags filter_by_laundering_def)
qed

end
